theory Spec2Isabelle
  imports Main "HOL-Library.AList"
begin

section \<open>JavaScript values as the relay sees them\<close>

text \<open>
  The relay (\<^verbatim>\<open>src/server.js\<close>, lines 1 to 346) receives JSON text and keeps a voxel
  world in nested \<^verbatim>\<open>Map\<close>s.  This section fixes the values it computes with.

  \<^item> A number is a finite value, \<^verbatim>\<open>NaN\<close>, \<^verbatim>\<open>Infinity\<close> or \<^verbatim>\<open>-Infinity\<close>.  Finite values are
    carried as integers: block coordinates, block ids and chunk indices are integers, and
    the program does no arithmetic on a number beyond \<^verbatim>\<open>Math.floor(x / 16)\<close> and the test
    \<^verbatim>\<open>id <= 0\<close>.  Fractions and the rounding of doubles are outside the embedding; \<^verbatim>\<open>-0\<close> is
    identified with \<^verbatim>\<open>0\<close> (they are equal under \<^verbatim>\<open><=\<close>, print alike and serialise alike).
  \<^item> A string is a list of characters, read as ASCII.
  \<^item> A parsed JSON text is a \<open>jsval\<close>; \<open>JUndefined\<close> is what reading an absent property
    gives.  An object is the list of its own properties in creation order.
  \<^item> A \<^verbatim>\<open>Map\<close> is an association list with distinct keys in insertion order:
    \<^verbatim>\<open>set\<close> is \<^const>\<open>AList.update\<close> (in place for a key that is present, at the end
    otherwise), \<^verbatim>\<open>delete\<close> is \<^const>\<open>AList.delete\<close>, \<^verbatim>\<open>get\<close> is \<^const>\<open>map_of\<close>.
\<close>

datatype jsnum = Fin int | NaN | PosInf | NegInf

datatype jsval =
    JUndefined
  | JNull
  | JBool bool
  | JNum jsnum
  | JStr string
  | JArr "jsval list"
  | JObj "(string \<times> jsval) list"

datatype error = TypeError


subsection \<open>Numbers to strings\<close>

definition digit :: "nat \<Rightarrow> char" where
  "digit d =
     (if d = 0 then CHR ''0'' else if d = 1 then CHR ''1'' else if d = 2 then CHR ''2''
      else if d = 3 then CHR ''3'' else if d = 4 then CHR ''4'' else if d = 5 then CHR ''5''
      else if d = 6 then CHR ''6'' else if d = 7 then CHR ''7'' else if d = 8 then CHR ''8''
      else CHR ''9'')"

fun digits :: "nat \<Rightarrow> string" where
  "digits n = (if n < 10 then [digit n] else digits (n div 10) @ [digit (n mod 10)])"

declare digits.simps [simp del]

text \<open>
  \<^verbatim>\<open>String(n)\<close> and \<^verbatim>\<open>`${n}`\<close> for a number: the decimal digits with a leading minus
  sign (JavaScript prints an integer this way below \<^verbatim>\<open>1e21\<close>).
\<close>

definition intToString :: "int \<Rightarrow> string" where
  "intToString i = (if i < 0 then CHR ''-'' # digits (nat (- i)) else digits (nat i))"

fun numberToString :: "jsnum \<Rightarrow> string" where
  "numberToString (Fin i) = intToString i"
| "numberToString NaN = ''NaN''"
| "numberToString PosInf = ''Infinity''"
| "numberToString NegInf = ''-Infinity''"

subsection \<open>Strings: \<^verbatim>\<open>trim\<close>, \<^verbatim>\<open>toUpperCase\<close>, \<^verbatim>\<open>slice(0, n)\<close>\<close>

definition isWhiteSpace :: "char \<Rightarrow> bool" where
  "isWhiteSpace c \<longleftrightarrow> c \<in> set [CHR 0x09, CHR 0x0A, CHR 0x0B, CHR 0x0C, CHR 0x0D, CHR '' '']"

definition trim :: "string \<Rightarrow> string" where
  "trim s = rev (dropWhile isWhiteSpace (rev (dropWhile isWhiteSpace s)))"

definition toUpperChar :: "char \<Rightarrow> char" where
  "toUpperChar c =
     (case map_of (zip ''abcdefghijklmnopqrstuvwxyz'' ''ABCDEFGHIJKLMNOPQRSTUVWXYZ'') c of
        Some u \<Rightarrow> u
      | None \<Rightarrow> c)"

definition toUpperCase :: "string \<Rightarrow> string" where
  "toUpperCase s = map toUpperChar s"

text \<open>\<^verbatim>\<open>s.slice(0, n)\<close> is \<^term>\<open>take n s\<close>.\<close>

subsection \<open>Strings to numbers\<close>

definition digitValue :: "char \<Rightarrow> nat option" where
  "digitValue c = map_of (zip ''0123456789'' [0, 1, 2, 3, 4, 5, 6, 7, 8, 9]) c"

fun parseDigits :: "string \<Rightarrow> nat \<Rightarrow> nat option" where
  "parseDigits [] acc = Some acc"
| "parseDigits (c # cs) acc =
     (case digitValue c of None \<Rightarrow> None | Some d \<Rightarrow> parseDigits cs (10 * acc + d))"

text \<open>
  The conversion of a string to a number (\<^verbatim>\<open>StringToNumber\<close> of the language standard)
  on its integer fragment: white space is stripped, the empty string is \<^verbatim>\<open>0\<close>, an
  optionally signed run of decimal digits is its value, \<^verbatim>\<open>Infinity\<close> may carry a sign,
  and every other string is \<^verbatim>\<open>NaN\<close>.  Literals with a fraction, an exponent or a radix
  prefix denote numbers outside the integers carried here and are not covered.
\<close>

definition unsignedToNumber :: "string \<Rightarrow> jsnum option" where
  "unsignedToNumber s =
     (if s = ''Infinity'' then Some PosInf
      else if s = [] then None
      else map_option (\<lambda>n. Fin (int n)) (parseDigits s 0))"

definition negate :: "jsnum \<Rightarrow> jsnum" where
  "negate n = (case n of Fin i \<Rightarrow> Fin (- i) | NaN \<Rightarrow> NaN | PosInf \<Rightarrow> NegInf | NegInf \<Rightarrow> PosInf)"

definition StringToNumber :: "string \<Rightarrow> jsnum" where
  "StringToNumber s =
     (let t = trim s in
      if t = [] then Fin 0
      else case t of
        c # r \<Rightarrow>
          (if c = CHR ''-'' then (case unsignedToNumber r of None \<Rightarrow> NaN | Some n \<Rightarrow> negate n)
           else if c = CHR ''+'' then (case unsignedToNumber r of None \<Rightarrow> NaN | Some n \<Rightarrow> n)
           else (case unsignedToNumber t of None \<Rightarrow> NaN | Some n \<Rightarrow> n))
      | [] \<Rightarrow> Fin 0)"

subsection \<open>Coercions\<close>

text \<open>Truthiness, as \<^verbatim>\<open>!!v\<close>, \<^verbatim>\<open>v || d\<close> and \<^verbatim>\<open>if (!v)\<close> read it.\<close>

fun truthy :: "jsval \<Rightarrow> bool" where
  "truthy JUndefined = False"
| "truthy JNull = False"
| "truthy (JBool b) = b"
| "truthy (JNum n) = (n \<noteq> Fin 0 \<and> n \<noteq> NaN)"
| "truthy (JStr s) = (s \<noteq> [])"
| "truthy (JArr vs) = True"
| "truthy (JObj ps) = True"

text \<open>\<^verbatim>\<open>typeof v === "object"\<close>: true of objects, arrays and \<^verbatim>\<open>null\<close>.\<close>

fun typeofObject :: "jsval \<Rightarrow> bool" where
  "typeofObject JNull = True"
| "typeofObject (JArr vs) = True"
| "typeofObject (JObj ps) = True"
| "typeofObject v = False"

text \<open>
  \<^verbatim>\<open>v.name\<close> and \<^verbatim>\<open>v?.name\<close> for the property names the relay reads (\<^verbatim>\<open>type\<close>, \<^verbatim>\<open>room\<close>,
  \<^verbatim>\<open>x\<close>, \<^verbatim>\<open>id\<close>, \<^verbatim>\<open>rooms\<close>, ...): an own property of an object, and \<^verbatim>\<open>undefined\<close> on
  every other value, since no built-in prototype defines one of these names.
\<close>

fun js_get :: "jsval \<Rightarrow> string \<Rightarrow> jsval" where
  "js_get (JObj ps) k = (case map_of ps k of Some v \<Rightarrow> v | None \<Rightarrow> JUndefined)"
| "js_get v k = JUndefined"

text \<open>
  \<^verbatim>\<open>Array.prototype.join\<close> with the default separator, over the strings of the elements;
  the first element whose conversion raises aborts the join.
\<close>

fun joinStrings :: "(error + string) list \<Rightarrow> error + string" where
  "joinStrings [] = Inr []"
| "joinStrings [r] = r"
| "joinStrings (r # rs) =
     (case r of
        Inl e \<Rightarrow> Inl e
      | Inr s \<Rightarrow> (case joinStrings rs of Inl e \<Rightarrow> Inl e | Inr t \<Rightarrow> Inr (s @ '','' @ t)))"

text \<open>
  \<^verbatim>\<open>String(v)\<close>.  A parsed JSON object has no callable property of its own, so an object
  with an own property named \<^verbatim>\<open>toString\<close> has no usable conversion method and the
  conversion raises \<^verbatim>\<open>TypeError\<close>; every other object is \<^verbatim>\<open>[object Object]\<close>.  An array is
  the join of its elements, \<^verbatim>\<open>null\<close> and \<^verbatim>\<open>undefined\<close> elements counting as empty.
\<close>

fun js_String :: "jsval \<Rightarrow> error + string" where
  "js_String JUndefined = Inr ''undefined''"
| "js_String JNull = Inr ''null''"
| "js_String (JBool b) = Inr (if b then ''true'' else ''false'')"
| "js_String (JNum n) = Inr (numberToString n)"
| "js_String (JStr s) = Inr s"
| "js_String (JArr vs) =
     joinStrings (map (\<lambda>v. if v = JUndefined \<or> v = JNull then Inr [] else js_String v) vs)"
| "js_String (JObj ps) =
     (if map_of ps ''toString'' \<noteq> None then Inl TypeError else Inr ''[object Object]'')"

text \<open>\<^verbatim>\<open>Number(v)\<close>; arrays and objects go through their string.\<close>

fun js_Number :: "jsval \<Rightarrow> error + jsnum" where
  "js_Number JUndefined = Inr NaN"
| "js_Number JNull = Inr (Fin 0)"
| "js_Number (JBool b) = Inr (Fin (if b then 1 else 0))"
| "js_Number (JNum n) = Inr n"
| "js_Number (JStr s) = Inr (StringToNumber s)"
| "js_Number v = (case js_String v of Inl e \<Rightarrow> Inl e | Inr s \<Rightarrow> Inr (StringToNumber s))"

section \<open>The chunked world store\<close>

text \<open>
  \<^verbatim>\<open>roomChunks\<close> maps a room to its chunks, a chunk key to its block map, and a block key
  to the record \<^verbatim>\<open>{ x, y, z, id }\<close>.  A record only ever enters the store after
  \<^verbatim>\<open>[x, y, z, id].every(Number.isFinite)\<close>, so its fields are integers here.
\<close>

record block =
  block_x :: int
  block_y :: int
  block_z :: int
  block_id :: int

type_synonym blockMap = "(string \<times> block) list"
type_synonym chunkMap = "(string \<times> blockMap) list"
type_synonym world = "(string \<times> chunkMap) list"

definition CHUNK_SIZE :: int where
  "CHUNK_SIZE = 16"

text \<open>\<^verbatim>\<open>Math.floor(x / CHUNK_SIZE)\<close> is \<^term>\<open>x div CHUNK_SIZE\<close> on integers.\<close>

definition blockChunkKey :: "int \<Rightarrow> int \<Rightarrow> string" where
  "blockChunkKey x z = intToString (x div CHUNK_SIZE) @ '','' @ intToString (z div CHUNK_SIZE)"

definition blockKey :: "int \<Rightarrow> int \<Rightarrow> int \<Rightarrow> string" where
  "blockKey x y z = intToString x @ '','' @ intToString y @ '','' @ intToString z"

text \<open>
  \<^verbatim>\<open>setRoomBlock(room, x, y, z, id)\<close>.  The source mutates the inner maps through
  references; here each changed map is written back into the map that holds it.
  \<open>W1\<close> and \<open>chunks1\<close> are the maps after \<^verbatim>\<open>ensureRoomChunks\<close> and after
  \<^verbatim>\<open>if (!chunks.has(cKey)) chunks.set(cKey, new Map())\<close>.
\<close>

definition setRoomBlock :: "world \<Rightarrow> string \<Rightarrow> int \<Rightarrow> int \<Rightarrow> int \<Rightarrow> int \<Rightarrow> world" where
  "setRoomBlock W room x y z i =
     (let W1 = (if map_of W room = None then AList.update room [] W else W);
          chunks = (case map_of W1 room of Some c \<Rightarrow> c | None \<Rightarrow> []);
          cKey = blockChunkKey x z;
          chunks1 = (if map_of chunks cKey = None then AList.update cKey [] chunks else chunks);
          cMap = (case map_of chunks1 cKey of Some m \<Rightarrow> m | None \<Rightarrow> []);
          bKey = blockKey x y z
      in if i \<le> 0 then
           (let cMap2 = AList.delete bKey cMap;
                chunks2 = (if length cMap2 = 0 then AList.delete cKey chunks1
                           else AList.update cKey cMap2 chunks1)
            in if length chunks2 = 0 then AList.delete room W1
               else AList.update room chunks2 W1)
         else
           AList.update room
             (AList.update cKey
               (AList.update bKey \<lparr>block_x = x, block_y = y, block_z = z, block_id = i\<rparr> cMap)
               chunks1)
             W1)"

definition getChunkBlocks :: "world \<Rightarrow> string \<Rightarrow> int \<Rightarrow> int \<Rightarrow> block list" where
  "getChunkBlocks W room cx cz =
     (case map_of W room of
        None \<Rightarrow> []
      | Some chunks \<Rightarrow>
          (case map_of chunks (intToString cx @ '','' @ intToString cz) of
             None \<Rightarrow> []
           | Some cMap \<Rightarrow> map snd cMap))"

subsection \<open>Serialising\<close>

text \<open>
  \<^verbatim>\<open>obj[k] = v\<close> on an object made by the literal \<^verbatim>\<open>{}\<close>.  For the key \<^verbatim>\<open>__proto__\<close>
  the assignment runs the setter inherited from \<^verbatim>\<open>Object.prototype\<close>: it replaces the
  prototype (when \<open>v\<close> is an object or an array) and creates no own property, so
  \<^verbatim>\<open>JSON.stringify\<close> and \<^verbatim>\<open>Object.entries\<close> never see it.  Every other key becomes an own
  property.
\<close>

definition js_assign :: "(string \<times> jsval) list \<Rightarrow> string \<Rightarrow> jsval \<Rightarrow> (string \<times> jsval) list" where
  "js_assign obj k v = (if k = ''__proto__'' then obj else AList.update k v obj)"

definition blockValue :: "block \<Rightarrow> jsval" where
  "blockValue b =
     JObj [(''x'', JNum (Fin (block_x b))), (''y'', JNum (Fin (block_y b))),
           (''z'', JNum (Fin (block_z b))), (''id'', JNum (Fin (block_id b)))]"

text \<open>The inner loop of \<^verbatim>\<open>serializeWorldState\<close>, \<open>roomData\<close> being the object built so far.\<close>

fun serializeChunks :: "chunkMap \<Rightarrow> (string \<times> jsval) list \<Rightarrow> (string \<times> jsval) list" where
  "serializeChunks [] roomData = roomData"
| "serializeChunks ((cKey, blockMap) # rest) roomData =
     serializeChunks rest (js_assign roomData cKey (JArr (map (\<lambda>p. blockValue (snd p)) blockMap)))"

text \<open>The outer loop, \<open>outRooms\<close> being \<^verbatim>\<open>out.rooms\<close> so far.\<close>

fun serializeRooms :: "world \<Rightarrow> (string \<times> jsval) list \<Rightarrow> (string \<times> jsval) list" where
  "serializeRooms [] outRooms = outRooms"
| "serializeRooms ((room, chunks) # rest) outRooms =
     serializeRooms rest (js_assign outRooms room (JObj (serializeChunks chunks [])))"

text \<open>
  The document: what \<^verbatim>\<open>JSON.stringify(serializeWorldState())\<close> writes and \<^verbatim>\<open>JSON.parse\<close>
  reads back, as a value.
\<close>

definition serializeWorldState :: "world \<Rightarrow> jsval" where
  "serializeWorldState W = JObj [(''rooms'', JObj (serializeRooms W []))]"

subsection \<open>Hydrating\<close>

text \<open>
  \<^verbatim>\<open>Object.entries(v)\<close> for an object or an array.  (JavaScript lists the integer-like
  keys of an object first; the order of entries is creation order here, and the theorems
  below compare worlds as mappings.)
\<close>

fun Object_entries :: "jsval \<Rightarrow> (string \<times> jsval) list" where
  "Object_entries (JObj ps) = ps"
| "Object_entries (JArr vs) = zip (map (\<lambda>n. intToString (int n)) [0..<length vs]) vs"
| "Object_entries v = []"

text \<open>\<^verbatim>\<open>[x, y, z, id].every(Number.isFinite)\<close>, giving the four finite values.\<close>

fun everyFinite :: "jsnum \<Rightarrow> jsnum \<Rightarrow> jsnum \<Rightarrow> jsnum \<Rightarrow> (int \<times> int \<times> int \<times> int) option" where
  "everyFinite (Fin x) (Fin y) (Fin z) (Fin i) = Some (x, y, z, i)"
| "everyFinite x y z i = None"

text \<open>Sequencing of computations that may raise: the first error ends the sequence.\<close>

definition bindE :: "error + 'a \<Rightarrow> ('a \<Rightarrow> error + 'b) \<Rightarrow> error + 'b" where
  "bindE r f = (case r of Inl e \<Rightarrow> Inl e | Inr v \<Rightarrow> f v)"

text \<open>
  One turn of the loop over \<^verbatim>\<open>blocks\<close>: the four coercions in source order (each may
  raise), then the two \<^verbatim>\<open>continue\<close> tests.  \<open>Inr None\<close> is \<^verbatim>\<open>continue\<close>.
\<close>

definition readBlock :: "jsval \<Rightarrow> error + block option" where
  "readBlock b =
     bindE (js_Number (js_get b ''x'')) (\<lambda>x.
     bindE (js_Number (js_get b ''y'')) (\<lambda>y.
     bindE (js_Number (js_get b ''z'')) (\<lambda>z.
     bindE (js_Number (js_get b ''id'')) (\<lambda>i.
       (case everyFinite x y z i of
          None \<Rightarrow> Inr None
        | Some (x', y', z', i') \<Rightarrow>
            if i' \<le> 0 then Inr None
            else Inr (Some \<lparr>block_x = x', block_y = y', block_z = z', block_id = i'\<rparr>))))))"

fun hydrateBlocks :: "jsval list \<Rightarrow> blockMap \<Rightarrow> error + blockMap" where
  "hydrateBlocks [] blockMap = Inr blockMap"
| "hydrateBlocks (b # bs) blockMap =
     (case readBlock b of
        Inl e \<Rightarrow> Inl e
      | Inr None \<Rightarrow> hydrateBlocks bs blockMap
      | Inr (Some blk) \<Rightarrow>
          hydrateBlocks bs
            (AList.update (blockKey (block_x blk) (block_y blk) (block_z blk)) blk blockMap))"

fun hydrateChunks :: "(string \<times> jsval) list \<Rightarrow> chunkMap \<Rightarrow> error + chunkMap" where
  "hydrateChunks [] chunks = Inr chunks"
| "hydrateChunks ((cKey, blocks) # rest) chunks =
     (case blocks of
        JArr bs \<Rightarrow>
          (case hydrateBlocks bs [] of
             Inl e \<Rightarrow> Inl e
           | Inr blockMap \<Rightarrow>
               hydrateChunks rest
                 (if length blockMap > 0 then AList.update cKey blockMap chunks else chunks))
      | _ \<Rightarrow> hydrateChunks rest chunks)"

text \<open>
  The loop over the rooms writes into \<^verbatim>\<open>roomChunks\<close> itself, so when a coercion raises
  the rooms stored so far stay: the result is the world and the error, if any.
\<close>

fun hydrateRooms :: "(string \<times> jsval) list \<Rightarrow> world \<Rightarrow> world \<times> error option" where
  "hydrateRooms [] W = (W, None)"
| "hydrateRooms ((room, roomData) # rest) W =
     (if \<not> truthy roomData \<or> \<not> typeofObject roomData then hydrateRooms rest W
      else case hydrateChunks (Object_entries roomData) [] of
             Inl e \<Rightarrow> (W, Some e)
           | Inr chunks \<Rightarrow>
               hydrateRooms rest (if length chunks > 0 then AList.update room chunks W else W))"

text \<open>
  \<^verbatim>\<open>hydrateWorldState(raw)\<close>, from the world \<open>W\<close> it finds; \<open>[]\<close> is the world after
  \<^verbatim>\<open>roomChunks.clear()\<close>.
\<close>

definition hydrateWorldState :: "world \<Rightarrow> jsval \<Rightarrow> world \<times> error option" where
  "hydrateWorldState W raw =
     (let cleared = [] in
      if \<not> truthy raw \<or> \<not> typeofObject raw
         \<or> \<not> truthy (js_get raw ''rooms'') \<or> \<not> typeofObject (js_get raw ''rooms'')
      then (cleared, None)
      else hydrateRooms (Object_entries (js_get raw ''rooms'')) cleared)"

subsection \<open>Views and invariants of the store\<close>

text \<open>The record stored for \<open>(x, y, z)\<close> in a room, looked up the way the store files it.\<close>

definition getBlock :: "world \<Rightarrow> string \<Rightarrow> int \<Rightarrow> int \<Rightarrow> int \<Rightarrow> block option" where
  "getBlock W room x y z =
     (case map_of W room of
        None \<Rightarrow> None
      | Some chunks \<Rightarrow>
          (case map_of chunks (blockChunkKey x z) of
             None \<Rightarrow> None
           | Some cMap \<Rightarrow> map_of cMap (blockKey x y z)))"

text \<open>
  The shape of a store: keys are distinct at each level, a block map files each record
  under the key of its coordinates and holds no id \<open>\<le> 0\<close>, a room holds no empty
  chunk, and the world holds no empty room.
\<close>

definition wf_blockMap :: "blockMap \<Rightarrow> bool" where
  "wf_blockMap m \<longleftrightarrow>
     distinct (map fst m) \<and>
     (\<forall>p \<in> set m. fst p = blockKey (block_x (snd p)) (block_y (snd p)) (block_z (snd p))
                  \<and> 0 < block_id (snd p))"

definition wf_chunkMap :: "chunkMap \<Rightarrow> bool" where
  "wf_chunkMap c \<longleftrightarrow> distinct (map fst c) \<and> (\<forall>p \<in> set c. snd p \<noteq> [] \<and> wf_blockMap (snd p))"

definition wf_world :: "world \<Rightarrow> bool" where
  "wf_world W \<longleftrightarrow> distinct (map fst W) \<and> (\<forall>p \<in> set W. snd p \<noteq> [] \<and> wf_chunkMap (snd p))"

text \<open>Every record of the store with its room, over all chunks.\<close>

definition allBlocks :: "world \<Rightarrow> (string \<times> block) list" where
  "allBlocks W =
     concat (map (\<lambda>r. concat (map (\<lambda>c. map (\<lambda>e. (fst r, snd e)) (snd c)) (snd r))) W)"

text \<open>Each record lies in the chunk of its coordinates.\<close>

definition placed_chunkMap :: "chunkMap \<Rightarrow> bool" where
  "placed_chunkMap c \<longleftrightarrow>
     (\<forall>p \<in> set c. \<forall>q \<in> set (snd p).
        fst p = blockChunkKey (block_x (snd q)) (block_z (snd q)))"

definition placed_world :: "world \<Rightarrow> bool" where
  "placed_world W \<longleftrightarrow> (\<forall>p \<in> set W. placed_chunkMap (snd p))"

text \<open>A call \<^verbatim>\<open>setRoomBlock(room, x, y, z, id)\<close> and a sequence of calls run in order.\<close>

type_synonym setBlockCall = "string \<times> int \<times> int \<times> int \<times> int"

definition applyCall :: "world \<Rightarrow> setBlockCall \<Rightarrow> world" where
  "applyCall W c = (case c of (room, x, y, z, i) \<Rightarrow> setRoomBlock W room x y z i)"

definition applyCalls :: "world \<Rightarrow> setBlockCall list \<Rightarrow> world" where
  "applyCalls W cs = foldl applyCall W cs"

text \<open>
  The specification's reading of a sequence of calls: for a coordinate of a room, the last
  call that names it decides, storing its id when positive and removing otherwise.
\<close>

definition callCoord :: "setBlockCall \<Rightarrow> string \<times> int \<times> int \<times> int" where
  "callCoord c = (case c of (room, x, y, z, i) \<Rightarrow> (room, x, y, z))"

definition callId :: "setBlockCall \<Rightarrow> int" where
  "callId c = (case c of (room, x, y, z, i) \<Rightarrow> i)"

definition lastWrite :: "setBlockCall list \<Rightarrow> string \<times> int \<times> int \<times> int \<Rightarrow> int option" where
  "lastWrite cs k =
     (let writes = filter (\<lambda>c. callCoord c = k) cs in
      if writes = [] then None
      else if 0 < callId (last writes) then Some (callId (last writes))
      else None)"

text \<open>
  The operations that change the store: a \<^verbatim>\<open>setRoomBlock\<close> call and a
  \<^verbatim>\<open>hydrateWorldState\<close> call on any parsed document.
\<close>

datatype storeOp = SetBlock string int int int int | Hydrate jsval

fun applyOp :: "world \<Rightarrow> storeOp \<Rightarrow> world" where
  "applyOp W (SetBlock room x y z i) = setRoomBlock W room x y z i"
| "applyOp W (Hydrate raw) = fst (hydrateWorldState W raw)"

definition runOps :: "world \<Rightarrow> storeOp list \<Rightarrow> world" where
  "runOps W ops = foldl applyOp W ops"

text \<open>
  A value that JavaScript calls an object: an object or an array (\<^verbatim>\<open>null\<close> has the type
  tag but is no object).
\<close>

fun isObject :: "jsval \<Rightarrow> bool" where
  "isObject (JObj ps) = True"
| "isObject (JArr vs) = True"
| "isObject v = False"

definition hasObjectRooms :: "jsval \<Rightarrow> bool" where
  "hasObjectRooms raw \<longleftrightarrow> isObject raw \<and> isObject (js_get raw ''rooms'')"

text \<open>No room key and no chunk key of the store is the string \<^verbatim>\<open>__proto__\<close>.\<close>

definition noProtoKeys :: "world \<Rightarrow> bool" where
  "noProtoKeys W \<longleftrightarrow>
     (\<forall>r \<in> set W. fst r \<noteq> ''__proto__'' \<and> (\<forall>c \<in> set (snd r). fst c \<noteq> ''__proto__''))"


text \<open>
  Two documents a world file may hold: one with a room named \<^verbatim>\<open>__proto__\<close>, one with a
  chunk key \<^verbatim>\<open>__proto__\<close> in room \<^verbatim>\<open>R\<close>; each holds the block \<^verbatim>\<open>{x:1, y:2, z:3, id:5}\<close>.
\<close>

definition protoRoomDocument :: jsval where
  "protoRoomDocument =
     JObj [(''rooms'', JObj [(''__proto__'', JObj [(''0,0'',
       JArr [JObj [(''x'', JNum (Fin 1)), (''y'', JNum (Fin 2)), (''z'', JNum (Fin 3)),
                   (''id'', JNum (Fin 5))]])])])]"


section \<open>Rooms, peers and the message dispatcher\<close>


definition normalizeRoom :: "jsval \<Rightarrow> error + string" where
  "normalizeRoom room =
     bindE (js_String (if truthy room then room else JStr ''GLOBAL'')) (\<lambda>s.
       let t = take 32 (toUpperCase (trim s))
       in Inr (if t \<noteq> [] then t else ''GLOBAL''))"
















































section \<open>Keys\<close>

text \<open>
  The decimal rendering of an integer can be read back, so it is injective; it holds no
  comma, so a key made of renderings joined by commas determines each of them.
\<close>

lemma digitValue_digit: "d < 10 \<Longrightarrow> digitValue (digit d) = Some d"
  by (auto simp: digitValue_def digit_def)

lemma digit_in: "digit d \<in> set ''0123456789''"
  by (simp add: digit_def)

lemma parseDigits_append:
  "parseDigits (xs @ ys) acc =
     (case parseDigits xs acc of None \<Rightarrow> None | Some a \<Rightarrow> parseDigits ys a)"
  by (induction xs arbitrary: acc) (auto split: option.splits)

lemma parseDigits_digits: "parseDigits (digits n) 0 = Some n"
proof (induction n rule: digits.induct)
  case (1 n)
  show ?case
  proof (cases "n < 10")
    case True
    then show ?thesis
      by (subst digits.simps) (simp add: digitValue_digit)
  next
    case False
    with 1 have "parseDigits (digits (n div 10)) 0 = Some (n div 10)"
      by simp
    with False show ?thesis
      by (subst digits.simps) (simp add: parseDigits_append digitValue_digit)
  qed
qed

lemma digits_inj: "digits a = digits b \<Longrightarrow> a = b"
  by (metis parseDigits_digits option.inject)

lemma set_digits: "set (digits n) \<subseteq> set ''0123456789''"
proof (induction n rule: digits.induct)
  case (1 n)
  show ?case
  proof (cases "n < 10")
    case True
    then show ?thesis
      using digit_in [of n] by (subst digits.simps) simp
  next
    case False
    with 1 have "set (digits (n div 10)) \<subseteq> set ''0123456789''"
      by simp
    with False show ?thesis
      using digit_in [of "n mod 10"] by (subst digits.simps) simp
  qed
qed

lemma minus_notin_digits: "CHR ''-'' \<notin> set (digits n)"
  using set_digits [of n] by auto

lemma comma_notin_digits: "CHR '','' \<notin> set (digits n)"
  using set_digits [of n] by auto

lemma intToString_inj: "intToString i = intToString j \<Longrightarrow> i = j"
proof -
  assume eq: "intToString i = intToString j"
  have neg: False if "a < 0" "\<not> b < 0" "intToString a = intToString b" for a b
  proof -
    from that have "CHR ''-'' # digits (nat (- a)) = digits (nat b)"
      by (simp add: intToString_def)
    then have "CHR ''-'' \<in> set (digits (nat b))"
      by (metis list.set_intros(1))
    then show False
      by (simp add: minus_notin_digits)
  qed
  show ?thesis
  proof (cases "i < 0")
    case True
    show ?thesis
    proof (cases "j < 0")
      case True
      with \<open>i < 0\<close> eq have "nat (- i) = nat (- j)"
        by (simp add: intToString_def digits_inj)
      with True \<open>i < 0\<close> show ?thesis by simp
    next
      case False
      with True eq neg show ?thesis by blast
    qed
  next
    case False
    show ?thesis
    proof (cases "j < 0")
      case True
      with False eq neg [of j i] show ?thesis by simp
    next
      case jn: False
      with False eq have "nat i = nat j"
        by (simp add: intToString_def digits_inj)
      with False jn show ?thesis by simp
    qed
  qed
qed

lemma comma_notin_intToString: "CHR '','' \<notin> set (intToString i)"
  by (simp add: intToString_def comma_notin_digits)

lemma split_at_separator:
  "c \<notin> set a \<Longrightarrow> c \<notin> set a' \<Longrightarrow> a @ c # r = a' @ c # r' \<Longrightarrow> a = a' \<and> r = r'"
proof (induction a arbitrary: a')
  case Nil
  then show ?case by (cases a') auto
next
  case (Cons h t)
  then show ?case by (cases a') auto
qed

lemma blockKey_inj:
  "blockKey x y z = blockKey x' y' z' \<longleftrightarrow> x = x' \<and> y = y' \<and> z = z'"
proof
  assume eq: "blockKey x y z = blockKey x' y' z'"
  then have "intToString x @ CHR '','' # (intToString y @ CHR '','' # intToString z)
      = intToString x' @ CHR '','' # (intToString y' @ CHR '','' # intToString z')"
    by (simp add: blockKey_def)
  then have 1: "intToString x = intToString x'"
    and 2: "intToString y @ CHR '','' # intToString z = intToString y' @ CHR '','' # intToString z'"
    using split_at_separator [OF comma_notin_intToString comma_notin_intToString] by blast+
  from 2 have "intToString y = intToString y'" and "intToString z = intToString z'"
    using split_at_separator [OF comma_notin_intToString comma_notin_intToString] by blast+
  with 1 show "x = x' \<and> y = y' \<and> z = z'"
    by (simp add: intToString_inj)
qed simp

lemma comma_in_blockChunkKey: "CHR '','' \<in> set (blockChunkKey x z)"
  by (simp add: blockChunkKey_def)

lemma blockChunkKey_not_proto: "blockChunkKey x z \<noteq> ''__proto__''"
  using comma_in_blockChunkKey [of x z] by auto

lemma chunkKey_inj:
  "intToString cx @ '','' @ intToString cz = blockChunkKey x z \<longleftrightarrow>
     cx = x div CHUNK_SIZE \<and> cz = z div CHUNK_SIZE"
proof
  assume "intToString cx @ '','' @ intToString cz = blockChunkKey x z"
  then have "intToString cx @ CHR '','' # intToString cz =
      intToString (x div CHUNK_SIZE) @ CHR '','' # intToString (z div CHUNK_SIZE)"
    by (simp add: blockChunkKey_def)
  then have "intToString cx = intToString (x div CHUNK_SIZE)"
    and "intToString cz = intToString (z div CHUNK_SIZE)"
    using split_at_separator [OF comma_notin_intToString comma_notin_intToString] by blast+
  then show "cx = x div CHUNK_SIZE \<and> cz = z div CHUNK_SIZE"
    by (simp add: intToString_inj)
qed (simp add: blockChunkKey_def)

section \<open>The store under \<^verbatim>\<open>setRoomBlock\<close>\<close>

text \<open>Association lists as maps.\<close>

lemma map_of_update:
  "map_of (AList.update k v al) k' = (if k' = k then Some v else map_of al k')"
  by (simp add: update_conv')

lemma map_of_delete:
  "map_of (AList.delete k al) k' = (if k' = k then None else map_of al k')"
  by (simp add: delete_conv')

lemma set_update_cases:
  "p \<in> set (AList.update k v al) \<Longrightarrow> p = (k, v) \<or> p \<in> set al"
  by (induction al) (auto split: if_splits)

lemma set_delete_subset: "p \<in> set (AList.delete k al) \<Longrightarrow> p \<in> set al"
  by (simp add: AList.delete_eq)

lemma update_absent: "k \<notin> fst ` set al \<Longrightarrow> AList.update k v al = al @ [(k, v)]"
  by (induction al) auto

text \<open>
  \<^verbatim>\<open>setRoomBlock\<close> without the two intermediate maps: creating an empty container and
  writing into it is one update.
\<close>

lemma setRoomBlock_alt:
  "setRoomBlock W room x y z i =
     (let chunks = (case map_of W room of Some c \<Rightarrow> c | None \<Rightarrow> []);
          cMap = (case map_of chunks (blockChunkKey x z) of Some m \<Rightarrow> m | None \<Rightarrow> [])
      in if i \<le> 0 then
           (let cMap2 = AList.delete (blockKey x y z) cMap;
                chunks2 = (if cMap2 = [] then AList.delete (blockChunkKey x z) chunks
                           else AList.update (blockChunkKey x z) cMap2 chunks)
            in if chunks2 = [] then AList.delete room W else AList.update room chunks2 W)
         else
           AList.update room
             (AList.update (blockChunkKey x z)
               (AList.update (blockKey x y z)
                  \<lparr>block_x = x, block_y = y, block_z = z, block_id = i\<rparr> cMap)
               chunks)
             W)"
proof (cases "map_of W room")
  case None
  then show ?thesis
    by (simp add: setRoomBlock_def Let_def map_of_update delete_update_same)
next
  case (Some chunks)
  show ?thesis
  proof (cases "map_of chunks (blockChunkKey x z)")
    case None
    with Some show ?thesis
      by (simp add: setRoomBlock_def Let_def map_of_update delete_update_same)
  next
    case (Some cMap)
    with \<open>map_of W room = Some chunks\<close> show ?thesis
      by (simp add: setRoomBlock_def Let_def)
  qed
qed

subsection \<open>The shape of the store is kept\<close>

lemma wf_blockMap_Nil: "wf_blockMap []"
  by (simp add: wf_blockMap_def)

lemma wf_blockMap_update:
  "wf_blockMap m \<Longrightarrow> 0 < block_id b \<Longrightarrow>
   wf_blockMap (AList.update (blockKey (block_x b) (block_y b) (block_z b)) b m)"
  unfolding wf_blockMap_def
  by (auto simp: distinct_update dest!: set_update_cases)

lemma wf_blockMap_delete: "wf_blockMap m \<Longrightarrow> wf_blockMap (AList.delete k m)"
  unfolding wf_blockMap_def
  by (auto simp: distinct_delete dest!: set_delete_subset)

lemma wf_chunkMap_Nil: "wf_chunkMap []"
  by (simp add: wf_chunkMap_def)

lemma wf_chunkMap_update:
  "wf_chunkMap c \<Longrightarrow> m \<noteq> [] \<Longrightarrow> wf_blockMap m \<Longrightarrow> wf_chunkMap (AList.update k m c)"
  unfolding wf_chunkMap_def
  by (auto simp: distinct_update dest!: set_update_cases)

lemma wf_chunkMap_delete: "wf_chunkMap c \<Longrightarrow> wf_chunkMap (AList.delete k c)"
  unfolding wf_chunkMap_def
  by (auto simp: distinct_delete dest!: set_delete_subset)

lemma wf_chunkMap_lookup:
  "wf_chunkMap c \<Longrightarrow> map_of c k = Some m \<Longrightarrow> m \<noteq> [] \<and> wf_blockMap m"
  unfolding wf_chunkMap_def by (auto dest!: map_of_SomeD)

lemma wf_world_Nil: "wf_world []"
  by (simp add: wf_world_def)

lemma wf_world_update:
  "wf_world W \<Longrightarrow> c \<noteq> [] \<Longrightarrow> wf_chunkMap c \<Longrightarrow> wf_world (AList.update k c W)"
  unfolding wf_world_def
  by (auto simp: distinct_update dest!: set_update_cases)

lemma wf_world_delete: "wf_world W \<Longrightarrow> wf_world (AList.delete k W)"
  unfolding wf_world_def
  by (auto simp: distinct_delete dest!: set_delete_subset)

lemma wf_world_lookup:
  "wf_world W \<Longrightarrow> map_of W k = Some c \<Longrightarrow> c \<noteq> [] \<and> wf_chunkMap c"
  unfolding wf_world_def by (auto dest!: map_of_SomeD)

lemma wf_world_setRoomBlock:
  assumes "wf_world W"
  shows "wf_world (setRoomBlock W room x y z i)"
proof -
  define chunks where "chunks = (case map_of W room of Some c \<Rightarrow> c | None \<Rightarrow> [])"
  define cMap where
    "cMap = (case map_of chunks (blockChunkKey x z) of Some m \<Rightarrow> m | None \<Rightarrow> [])"
  have wc: "wf_chunkMap chunks"
    using assms by (auto simp: chunks_def wf_chunkMap_Nil dest: wf_world_lookup split: option.splits)
  have wm: "wf_blockMap cMap"
    using wc by (auto simp: cMap_def wf_blockMap_Nil dest: wf_chunkMap_lookup split: option.splits)
  show ?thesis
  proof (cases "i \<le> 0")
    case True
    define cMap2 where "cMap2 = AList.delete (blockKey x y z) cMap"
    define chunks2 where
      "chunks2 = (if cMap2 = [] then AList.delete (blockChunkKey x z) chunks
                  else AList.update (blockChunkKey x z) cMap2 chunks)"
    have "wf_blockMap cMap2"
      using wm by (simp add: cMap2_def wf_blockMap_delete)
    then have "wf_chunkMap chunks2"
      using wc by (simp add: chunks2_def wf_chunkMap_delete wf_chunkMap_update)
    then have "wf_world (if chunks2 = [] then AList.delete room W else AList.update room chunks2 W)"
      using assms by (simp add: wf_world_delete wf_world_update)
    moreover have "setRoomBlock W room x y z i =
        (if chunks2 = [] then AList.delete room W else AList.update room chunks2 W)"
      using True
      by (simp add: setRoomBlock_alt Let_def chunks_def cMap_def cMap2_def chunks2_def)
    ultimately show ?thesis
      by simp
  next
    case False
    define b where "b = \<lparr>block_x = x, block_y = y, block_z = z, block_id = i\<rparr>"
    have "wf_blockMap (AList.update (blockKey x y z) b cMap)"
      using wf_blockMap_update [OF wm, of b] False by (simp add: b_def)
    then have "wf_chunkMap (AList.update (blockChunkKey x z) (AList.update (blockKey x y z) b cMap) chunks)"
      using wc by (simp add: wf_chunkMap_update)
    then have "wf_world (AList.update room
        (AList.update (blockChunkKey x z) (AList.update (blockKey x y z) b cMap) chunks) W)"
      using assms by (simp add: wf_world_update)
    moreover have "setRoomBlock W room x y z i = AList.update room
        (AList.update (blockChunkKey x z) (AList.update (blockKey x y z) b cMap) chunks) W"
      using False by (simp add: setRoomBlock_alt Let_def chunks_def cMap_def b_def)
    ultimately show ?thesis
      by simp
  qed
qed

subsection \<open>A call changes its own coordinate and no other\<close>

lemma getBlock_setRoomBlock_other_room:
  "r' \<noteq> room \<Longrightarrow> getBlock (setRoomBlock W room x y z i) r' x' y' z' = getBlock W r' x' y' z'"
  by (simp add: setRoomBlock_alt Let_def getBlock_def map_of_update map_of_delete)

lemma getBlock_setRoomBlock_same:
  "getBlock (setRoomBlock W room x y z i) room x y z =
     (if i \<le> 0 then None else Some \<lparr>block_x = x, block_y = y, block_z = z, block_id = i\<rparr>)"
  by (simp add: setRoomBlock_alt Let_def getBlock_def map_of_update map_of_delete)

lemma getBlock_setRoomBlock_other_block:
  assumes "(x', y', z') \<noteq> (x, y, z)"
  shows "getBlock (setRoomBlock W room x y z i) room x' y' z' = getBlock W room x' y' z'"
proof -
  define chunks where "chunks = (case map_of W room of Some c \<Rightarrow> c | None \<Rightarrow> [])"
  define cMap where
    "cMap = (case map_of chunks (blockChunkKey x z) of Some m \<Rightarrow> m | None \<Rightarrow> [])"
  have key: "blockKey x' y' z' \<noteq> blockKey x y z"
    using assms by (simp add: blockKey_inj)
  have old: "getBlock W room x' y' z' =
      (case map_of chunks (blockChunkKey x' z') of None \<Rightarrow> None
       | Some m \<Rightarrow> map_of m (blockKey x' y' z'))"
    by (simp add: getBlock_def chunks_def split: option.splits)
  have same_chunk: "map_of chunks (blockChunkKey x' z') = None \<or>
      map_of chunks (blockChunkKey x' z') = Some cMap"
    if "blockChunkKey x' z' = blockChunkKey x z"
    using that by (auto simp: cMap_def split: option.splits)
  show ?thesis
  proof (cases "i \<le> 0")
    case True
    define cMap2 where "cMap2 = AList.delete (blockKey x y z) cMap"
    define chunks2 where
      "chunks2 = (if cMap2 = [] then AList.delete (blockChunkKey x z) chunks
                  else AList.update (blockChunkKey x z) cMap2 chunks)"
    have new: "getBlock (setRoomBlock W room x y z i) room x' y' z' =
       (if chunks2 = [] then None
        else case map_of chunks2 (blockChunkKey x' z') of None \<Rightarrow> None
             | Some m \<Rightarrow> map_of m (blockKey x' y' z'))"
      using True
      by (simp add: setRoomBlock_alt Let_def getBlock_def map_of_update map_of_delete
          chunks_def cMap_def cMap2_def chunks2_def)
    have look2: "(case map_of chunks2 (blockChunkKey x' z') of None \<Rightarrow> None
             | Some m \<Rightarrow> map_of m (blockKey x' y' z')) = getBlock W room x' y' z'"
    proof (cases "blockChunkKey x' z' = blockChunkKey x z")
      case False
      then show ?thesis
        by (simp add: old chunks2_def map_of_update map_of_delete)
    next
      case same: True
      have c2: "map_of cMap2 (blockKey x' y' z') = map_of cMap (blockKey x' y' z')"
        using key by (simp add: cMap2_def map_of_delete)
      show ?thesis
      proof (cases "cMap2 = []")
        case True
        then have "map_of cMap (blockKey x' y' z') = None"
          using c2 by simp
        with True same same_chunk [OF same] show ?thesis
          by (auto simp: old chunks2_def map_of_delete)
      next
        case False
        then have ne: "map_of cMap (blockKey x' y' z') = None" if "cMap = []"
          using that by simp
        from False same same_chunk [OF same] c2 show ?thesis
          by (auto simp: old chunks2_def map_of_update cMap_def split: option.splits)
      qed
    qed
    have "getBlock W room x' y' z' = None" if "chunks2 = []"
      using look2 that by simp
    with new look2 show ?thesis
      by simp
  next
    case False
    then have new: "getBlock (setRoomBlock W room x y z i) room x' y' z' =
       (if blockChunkKey x' z' = blockChunkKey x z then map_of cMap (blockKey x' y' z')
        else case map_of chunks (blockChunkKey x' z') of None \<Rightarrow> None
             | Some m \<Rightarrow> map_of m (blockKey x' y' z'))"
      using key
      by (simp add: setRoomBlock_alt Let_def getBlock_def map_of_update chunks_def cMap_def)
    show ?thesis
    proof (cases "blockChunkKey x' z' = blockChunkKey x z")
      case True
      with same_chunk [OF True] show ?thesis
        by (auto simp: new old cMap_def split: option.splits)
    next
      case False
      then show ?thesis
        by (simp add: new old)
    qed
  qed
qed

lemma getBlock_setRoomBlock:
  "getBlock (setRoomBlock W room x y z i) r' x' y' z' =
     (if r' = room \<and> x' = x \<and> y' = y \<and> z' = z
      then (if i \<le> 0 then None else Some \<lparr>block_x = x, block_y = y, block_z = z, block_id = i\<rparr>)
      else getBlock W r' x' y' z')"
  using getBlock_setRoomBlock_other_room [of r' room W x y z i x' y' z']
    getBlock_setRoomBlock_same [of W room x y z i]
    getBlock_setRoomBlock_other_block [of x' y' z' x y z W room i]
  by auto

subsection \<open>Every record lies where it is looked up\<close>

lemma set_allBlocks:
  "set (allBlocks W) =
     {(room, b). \<exists>chunks cKey cMap bKey.
        (room, chunks) \<in> set W \<and> (cKey, cMap) \<in> set chunks \<and> (bKey, b) \<in> set cMap}"
  by (force simp: allBlocks_def)

lemma placed_chunkMap_Nil: "placed_chunkMap []"
  by (simp add: placed_chunkMap_def)

lemma placed_chunkMap_update:
  "placed_chunkMap c \<Longrightarrow> \<forall>q \<in> set m. k = blockChunkKey (block_x (snd q)) (block_z (snd q)) \<Longrightarrow>
   placed_chunkMap (AList.update k m c)"
  unfolding placed_chunkMap_def by (auto dest!: set_update_cases)

lemma placed_chunkMap_delete: "placed_chunkMap c \<Longrightarrow> placed_chunkMap (AList.delete k c)"
  unfolding placed_chunkMap_def by (auto dest!: set_delete_subset)

lemma placed_chunkMap_lookup:
  "placed_chunkMap c \<Longrightarrow> map_of c k = Some m \<Longrightarrow>
   \<forall>q \<in> set m. k = blockChunkKey (block_x (snd q)) (block_z (snd q))"
  unfolding placed_chunkMap_def by (auto dest!: map_of_SomeD)

lemma placed_world_Nil: "placed_world []"
  by (simp add: placed_world_def)

lemma placed_world_update:
  "placed_world W \<Longrightarrow> placed_chunkMap c \<Longrightarrow> placed_world (AList.update k c W)"
  unfolding placed_world_def by (auto dest!: set_update_cases)

lemma placed_world_delete: "placed_world W \<Longrightarrow> placed_world (AList.delete k W)"
  unfolding placed_world_def by (auto dest!: set_delete_subset)

lemma placed_world_lookup: "placed_world W \<Longrightarrow> map_of W k = Some c \<Longrightarrow> placed_chunkMap c"
  unfolding placed_world_def by (auto dest!: map_of_SomeD)

lemma placed_world_setRoomBlock:
  assumes "placed_world W"
  shows "placed_world (setRoomBlock W room x y z i)"
proof -
  define chunks where "chunks = (case map_of W room of Some c \<Rightarrow> c | None \<Rightarrow> [])"
  define cMap where
    "cMap = (case map_of chunks (blockChunkKey x z) of Some m \<Rightarrow> m | None \<Rightarrow> [])"
  have pc: "placed_chunkMap chunks"
    using assms
    by (auto simp: chunks_def placed_chunkMap_Nil dest: placed_world_lookup split: option.splits)
  have pm: "\<forall>q \<in> set cMap. blockChunkKey x z = blockChunkKey (block_x (snd q)) (block_z (snd q))"
  proof (cases "map_of chunks (blockChunkKey x z)")
    case None
    then show ?thesis
      by (simp add: cMap_def)
  next
    case (Some m)
    with placed_chunkMap_lookup [OF pc Some] show ?thesis
      by (simp add: cMap_def)
  qed
  show ?thesis
  proof (cases "i \<le> 0")
    case True
    define cMap2 where "cMap2 = AList.delete (blockKey x y z) cMap"
    define chunks2 where
      "chunks2 = (if cMap2 = [] then AList.delete (blockChunkKey x z) chunks
                  else AList.update (blockChunkKey x z) cMap2 chunks)"
    have "\<forall>q \<in> set cMap2. blockChunkKey x z = blockChunkKey (block_x (snd q)) (block_z (snd q))"
      using pm by (auto simp: cMap2_def dest!: set_delete_subset)
    then have "placed_chunkMap chunks2"
      using pc by (simp add: chunks2_def placed_chunkMap_delete placed_chunkMap_update)
    then have "placed_world (if chunks2 = [] then AList.delete room W
                             else AList.update room chunks2 W)"
      using assms by (simp add: placed_world_delete placed_world_update)
    moreover have "setRoomBlock W room x y z i =
        (if chunks2 = [] then AList.delete room W else AList.update room chunks2 W)"
      using True
      by (simp add: setRoomBlock_alt Let_def chunks_def cMap_def cMap2_def chunks2_def)
    ultimately show ?thesis
      by simp
  next
    case False
    define b where "b = \<lparr>block_x = x, block_y = y, block_z = z, block_id = i\<rparr>"
    have "\<forall>q \<in> set (AList.update (blockKey x y z) b cMap).
        blockChunkKey x z = blockChunkKey (block_x (snd q)) (block_z (snd q))"
      using pm by (auto simp: b_def dest!: set_update_cases)
    then have "placed_chunkMap
        (AList.update (blockChunkKey x z) (AList.update (blockKey x y z) b cMap) chunks)"
      using pc by (simp add: placed_chunkMap_update)
    then have "placed_world (AList.update room
        (AList.update (blockChunkKey x z) (AList.update (blockKey x y z) b cMap) chunks) W)"
      using assms by (simp add: placed_world_update)
    moreover have "setRoomBlock W room x y z i = AList.update room
        (AList.update (blockChunkKey x z) (AList.update (blockKey x y z) b cMap) chunks) W"
      using False by (simp add: setRoomBlock_alt Let_def chunks_def cMap_def b_def)
    ultimately show ?thesis
      by simp
  qed
qed

lemma in_allBlocks_iff:
  assumes "wf_world W" and "placed_world W"
  shows "(room, b) \<in> set (allBlocks W) \<longleftrightarrow>
         getBlock W room (block_x b) (block_y b) (block_z b) = Some b"
proof
  assume "(room, b) \<in> set (allBlocks W)"
  then obtain chunks cKey cMap bKey where
    r: "(room, chunks) \<in> set W" and c: "(cKey, cMap) \<in> set chunks" and e: "(bKey, b) \<in> set cMap"
    by (auto simp: set_allBlocks)
  from assms(1) r have 1: "map_of W room = Some chunks" and wc: "wf_chunkMap chunks"
    by (auto simp: wf_world_def)
  from wc c have 2: "map_of chunks cKey = Some cMap" and wm: "wf_blockMap cMap"
    by (auto simp: wf_chunkMap_def)
  from wm e have 3: "map_of cMap bKey = Some b"
    and k: "bKey = blockKey (block_x b) (block_y b) (block_z b)"
    by (auto simp: wf_blockMap_def)
  from assms(2) r c e have "cKey = blockChunkKey (block_x b) (block_z b)"
    by (fastforce simp: placed_world_def placed_chunkMap_def)
  with 1 2 3 k show "getBlock W room (block_x b) (block_y b) (block_z b) = Some b"
    by (simp add: getBlock_def)
next
  assume "getBlock W room (block_x b) (block_y b) (block_z b) = Some b"
  then show "(room, b) \<in> set (allBlocks W)"
    by (auto simp: getBlock_def set_allBlocks split: option.splits dest!: map_of_SomeD)
qed

lemma applyCalls_snoc: "applyCalls W (cs @ [c]) = applyCall (applyCalls W cs) c"
  by (simp add: applyCalls_def)

lemma wf_world_applyCalls: "wf_world W \<Longrightarrow> wf_world (applyCalls W cs)"
  by (induction cs rule: rev_induct)
    (auto simp: applyCalls_def applyCall_def wf_world_setRoomBlock split: prod.splits)

lemma placed_world_applyCalls: "placed_world W \<Longrightarrow> placed_world (applyCalls W cs)"
  by (induction cs rule: rev_induct)
    (auto simp: applyCalls_def applyCall_def placed_world_setRoomBlock split: prod.splits)

lemma lastWrite_Nil: "lastWrite [] k = None"
  by (simp add: lastWrite_def)

lemma lastWrite_snoc:
  "lastWrite (cs @ [c]) k =
     (if callCoord c = k then (if 0 < callId c then Some (callId c) else None)
      else lastWrite cs k)"
  by (simp add: lastWrite_def)

lemma getBlock_applyCalls:
  "getBlock (applyCalls [] cs) room x y z =
     map_option (\<lambda>i. \<lparr>block_x = x, block_y = y, block_z = z, block_id = i\<rparr>)
       (lastWrite cs (room, x, y, z))"
proof (induction cs rule: rev_induct)
  case Nil
  show ?case
    by (simp add: applyCalls_def getBlock_def lastWrite_Nil)
next
  case (snoc c cs)
  obtain r' x' y' z' i where c: "c = (r', x', y', z', i)"
    by (cases c) auto
  show ?case
    using snoc
    by (auto simp: applyCalls_snoc applyCall_def c getBlock_setRoomBlock lastWrite_snoc
        callCoord_def callId_def)
qed

subsection \<open>Last write per coordinate wins\<close>

text \<open>
  Claim C1.  For every sequence of \<^verbatim>\<open>setBlock\<close> calls applied to the empty store, the final
  store is what "last write per coordinate wins" gives: the block found at \<open>(x, y, z)\<close>
  of a room carries the id of the last call for that coordinate of that room when that
  id is positive, and nothing is found when there was no such call or its id was
  \<open>\<le> 0\<close>; and the records the store holds, over all rooms and chunks, are exactly
  these.
\<close>

theorem setBlock_last_write_wins:
  "(\<forall>room x y z.
      map_option block_id (getBlock (applyCalls [] cs) room x y z) = lastWrite cs (room, x, y, z))
   \<and> set (allBlocks (applyCalls [] cs)) =
       {(room, \<lparr>block_x = x, block_y = y, block_z = z, block_id = i\<rparr>) | room x y z i.
          lastWrite cs (room, x, y, z) = Some i}"
proof
  show "\<forall>room x y z.
      map_option block_id (getBlock (applyCalls [] cs) room x y z) = lastWrite cs (room, x, y, z)"
    by (simp add: getBlock_applyCalls option.map_comp comp_def option.map_ident)
next
  have wf: "wf_world (applyCalls [] cs)"
    by (simp add: wf_world_applyCalls wf_world_Nil)
  have pl: "placed_world (applyCalls [] cs)"
    by (simp add: placed_world_applyCalls placed_world_Nil)
  show "set (allBlocks (applyCalls [] cs)) =
       {(room, \<lparr>block_x = x, block_y = y, block_z = z, block_id = i\<rparr>) | room x y z i.
          lastWrite cs (room, x, y, z) = Some i}" (is "?L = ?R")
  proof (rule set_eqI)
    fix p :: "string \<times> block"
    obtain room b where p: "p = (room, b)"
      by (cases p) auto
    have "p \<in> ?L \<longleftrightarrow> getBlock (applyCalls [] cs) room (block_x b) (block_y b) (block_z b) = Some b"
      using in_allBlocks_iff [OF wf pl] by (simp add: p)
    also have "\<dots> \<longleftrightarrow> (\<exists>i. lastWrite cs (room, block_x b, block_y b, block_z b) = Some i
        \<and> b = \<lparr>block_x = block_x b, block_y = block_y b, block_z = block_z b, block_id = i\<rparr>)"
      by (auto simp: getBlock_applyCalls)
    also have "\<dots> \<longleftrightarrow> p \<in> ?R"
      by (auto simp: p)
    finally show "p \<in> ?L \<longleftrightarrow> p \<in> ?R" .
  qed
qed

text \<open>
  The scenario of the specification: a block is placed at \<open>(1, 2, 3)\<close>, another at
  \<open>(1, 2, 4)\<close>, and the first is removed with id \<open>0\<close>.
\<close>

theorem setBlock_last_write_wins_witness:
  "getBlock (applyCalls [] [(''ABC'', 1, 2, 3, 5), (''ABC'', 1, 2, 4, 7), (''ABC'', 1, 2, 3, 0)])
       ''ABC'' 1 2 3 = None
   \<and> map_option block_id
       (getBlock (applyCalls [] [(''ABC'', 1, 2, 3, 5), (''ABC'', 1, 2, 4, 7), (''ABC'', 1, 2, 3, 0)])
          ''ABC'' 1 2 4) = Some 7"
  using setBlock_last_write_wins
    [of "[(''ABC'', 1, 2, 3, 5), (''ABC'', 1, 2, 4, 7), (''ABC'', 1, 2, 3, 0)]",
      THEN conjunct1, rule_format, of "''ABC''" 1 2 3]
    setBlock_last_write_wins
    [of "[(''ABC'', 1, 2, 3, 5), (''ABC'', 1, 2, 4, 7), (''ABC'', 1, 2, 3, 0)]",
      THEN conjunct1, rule_format, of "''ABC''" 1 2 4]
  by (simp add: lastWrite_def callCoord_def callId_def)

section \<open>Hydration keeps the shape of the store\<close>

lemma readBlock_Some_positive: "readBlock b = Inr (Some blk) \<Longrightarrow> 0 < block_id blk"
  by (auto simp: readBlock_def bindE_def split: sum.splits option.splits if_splits)

lemma wf_blockMap_hydrateBlocks:
  "hydrateBlocks bs m = Inr m' \<Longrightarrow> wf_blockMap m \<Longrightarrow> wf_blockMap m'"
proof (induction bs arbitrary: m)
  case Nil
  then show ?case by simp
next
  case (Cons b bs)
  show ?case
  proof (cases "readBlock b")
    case (Inl e)
    with Cons.prems show ?thesis by simp
  next
    case (Inr r)
    show ?thesis
    proof (cases r)
      case None
      with Inr Cons show ?thesis by simp
    next
      case (Some blk)
      with Inr have "0 < block_id blk"
        by (simp add: readBlock_Some_positive)
      with Cons.prems(2) have "wf_blockMap
          (AList.update (blockKey (block_x blk) (block_y blk) (block_z blk)) blk m)"
        by (simp add: wf_blockMap_update)
      with Cons.IH Cons.prems(1) Inr Some show ?thesis by simp
    qed
  qed
qed

lemma wf_chunkMap_hydrateChunks:
  "hydrateChunks es c = Inr c' \<Longrightarrow> wf_chunkMap c \<Longrightarrow> wf_chunkMap c'"
proof (induction es arbitrary: c)
  case Nil
  then show ?case by simp
next
  case (Cons entry es)
  obtain cKey blocks where entry: "entry = (cKey, blocks)"
    by (cases entry) auto
  show ?case
  proof (cases blocks)
    case (JArr bs)
    show ?thesis
    proof (cases "hydrateBlocks bs []")
      case (Inl e)
      with JArr entry Cons.prems show ?thesis by simp
    next
      case (Inr blockMap)
      then have wm: "wf_blockMap blockMap"
        using wf_blockMap_hydrateBlocks wf_blockMap_Nil by blast
      have "wf_chunkMap (if length blockMap > 0 then AList.update cKey blockMap c else c)"
        using wm Cons.prems(2) by (simp add: wf_chunkMap_update)
      moreover have "hydrateChunks es
          (if length blockMap > 0 then AList.update cKey blockMap c else c) = Inr c'"
        using Cons.prems(1) JArr Inr entry by simp
      ultimately show ?thesis
        using Cons.IH by blast
    qed
  qed (use Cons entry in simp_all)
qed

lemma wf_world_hydrateRooms:
  "hydrateRooms es W = (W', e) \<Longrightarrow> wf_world W \<Longrightarrow> wf_world W'"
proof (induction es arbitrary: W)
  case Nil
  then show ?case by simp
next
  case (Cons entry es)
  obtain room roomData where entry: "entry = (room, roomData)"
    by (cases entry) auto
  show ?case
  proof (cases "\<not> truthy roomData \<or> \<not> typeofObject roomData")
    case True
    with Cons entry show ?thesis by simp
  next
    case False
    show ?thesis
    proof (cases "hydrateChunks (Object_entries roomData) []")
      case (Inl err)
      with False entry Cons.prems show ?thesis by simp
    next
      case (Inr chunks)
      then have "wf_chunkMap chunks"
        using wf_chunkMap_hydrateChunks wf_chunkMap_Nil by blast
      then have "wf_world (if length chunks > 0 then AList.update room chunks W else W)"
        using Cons.prems(2) by (simp add: wf_world_update)
      moreover have "hydrateRooms es
          (if length chunks > 0 then AList.update room chunks W else W) = (W', e)"
        using Cons.prems(1) False Inr entry by simp
      ultimately show ?thesis
        using Cons.IH by blast
    qed
  qed
qed

lemma wf_world_hydrateWorldState: "wf_world (fst (hydrateWorldState W raw))"
proof (cases "hydrateWorldState W raw")
  case (Pair W' e)
  then have "W' = [] \<or> hydrateRooms (Object_entries (js_get raw ''rooms'')) [] = (W', e)"
    by (auto simp: hydrateWorldState_def Let_def split: if_splits)
  then have "wf_world W'"
    using wf_world_hydrateRooms wf_world_Nil by blast
  with Pair show ?thesis by simp
qed

lemma wf_world_applyOp: "wf_world W \<Longrightarrow> wf_world (applyOp W op)"
  by (cases op) (simp_all add: wf_world_setRoomBlock wf_world_hydrateWorldState)

lemma wf_world_runOps: "wf_world W \<Longrightarrow> wf_world (runOps W ops)"
  by (induction ops arbitrary: W) (simp_all add: runOps_def wf_world_applyOp)

section \<open>Serialising and hydrating again\<close>

text \<open>
  On a store of the right shape with no key \<^verbatim>\<open>__proto__\<close>, the document lists every room,
  chunk and block, and hydrating it gives the store back.  (Equality is that of the
  model, where entries keep their order; in JavaScript the rooms come back in the
  document's key order, so the stores are equal as mappings.)
\<close>

lemma serializeChunks_eq:
  "distinct (map fst chunks) \<Longrightarrow>
   \<forall>c \<in> set chunks. fst c \<noteq> ''__proto__'' \<and> fst c \<notin> fst ` set roomData \<Longrightarrow>
   serializeChunks chunks roomData =
     roomData @ map (\<lambda>c. (fst c, JArr (map (\<lambda>p. blockValue (snd p)) (snd c)))) chunks"
proof (induction chunks arbitrary: roomData)
  case Nil
  then show ?case by simp
next
  case (Cons c chunks)
  obtain cKey blockMap where c: "c = (cKey, blockMap)"
    by (cases c) auto
  let ?v = "JArr (map (\<lambda>p. blockValue (snd p)) blockMap)"
  have step: "js_assign roomData cKey ?v = roomData @ [(cKey, ?v)]"
    using Cons.prems(2) by (simp add: js_assign_def c update_absent)
  have "\<forall>d \<in> set chunks. fst d \<noteq> ''__proto__'' \<and> fst d \<notin> fst ` set (roomData @ [(cKey, ?v)])"
    using Cons.prems by (auto simp: c)
  with Cons.IH [of "roomData @ [(cKey, ?v)]"] Cons.prems(1) step show ?case
    by (simp add: c)
qed

lemma serializeRooms_eq:
  "distinct (map fst W) \<Longrightarrow>
   \<forall>r \<in> set W. fst r \<noteq> ''__proto__'' \<and> fst r \<notin> fst ` set outRooms \<Longrightarrow>
   serializeRooms W outRooms =
     outRooms @ map (\<lambda>r. (fst r, JObj (serializeChunks (snd r) []))) W"
proof (induction W arbitrary: outRooms)
  case Nil
  then show ?case by simp
next
  case (Cons r W)
  obtain room chunks where r: "r = (room, chunks)"
    by (cases r) auto
  let ?v = "JObj (serializeChunks chunks [])"
  have step: "js_assign outRooms room ?v = outRooms @ [(room, ?v)]"
    using Cons.prems(2) by (simp add: js_assign_def r update_absent)
  have "\<forall>d \<in> set W. fst d \<noteq> ''__proto__'' \<and> fst d \<notin> fst ` set (outRooms @ [(room, ?v)])"
    using Cons.prems by (auto simp: r)
  with Cons.IH [of "outRooms @ [(room, ?v)]"] Cons.prems(1) step show ?case
    by (simp add: r)
qed

lemma readBlock_blockValue:
  "readBlock (blockValue b) = Inr (if block_id b \<le> 0 then None else Some b)"
  by (simp add: readBlock_def blockValue_def bindE_def)

lemma hydrateBlocks_blockValues:
  "wf_blockMap (acc @ m) \<Longrightarrow>
   hydrateBlocks (map (\<lambda>p. blockValue (snd p)) m) acc = Inr (acc @ m)"
proof (induction m arbitrary: acc)
  case Nil
  then show ?case by simp
next
  case (Cons p m)
  from Cons.prems have d: "distinct (map fst (acc @ p # m))"
    unfolding wf_blockMap_def by blast
  have "p \<in> set (acc @ p # m)"
    by simp
  with Cons.prems
  have k: "fst p = blockKey (block_x (snd p)) (block_y (snd p)) (block_z (snd p))"
    and pos: "0 < block_id (snd p)"
    unfolding wf_blockMap_def by blast+
  from d have fresh: "fst p \<notin> fst ` set acc"
    by auto
  have "AList.update (fst p) (snd p) acc = acc @ [p]"
    using fresh by (simp add: update_absent)
  moreover have "wf_blockMap ((acc @ [p]) @ m)"
    using Cons.prems by simp
  ultimately show ?case
    using Cons.IH [of "acc @ [p]"] pos k by (simp add: readBlock_blockValue)
qed

lemma hydrateChunks_serialized:
  "wf_chunkMap (acc @ chunks) \<Longrightarrow>
   hydrateChunks (map (\<lambda>c. (fst c, JArr (map (\<lambda>p. blockValue (snd p)) (snd c)))) chunks) acc
     = Inr (acc @ chunks)"
proof (induction chunks arbitrary: acc)
  case Nil
  then show ?case by simp
next
  case (Cons c chunks)
  from Cons.prems have d: "distinct (map fst (acc @ c # chunks))"
    unfolding wf_chunkMap_def by blast
  have "c \<in> set (acc @ c # chunks)"
    by simp
  with Cons.prems have wm: "wf_blockMap (snd c)" and ne: "snd c \<noteq> []"
    unfolding wf_chunkMap_def by blast+
  from d have fresh: "fst c \<notin> fst ` set acc"
    by auto
  have "hydrateBlocks (map (\<lambda>p. blockValue (snd p)) (snd c)) [] = Inr (snd c)"
    using hydrateBlocks_blockValues [of "[]" "snd c"] wm by simp
  moreover have "AList.update (fst c) (snd c) acc = acc @ [c]"
    using fresh by (simp add: update_absent)
  moreover have "wf_chunkMap ((acc @ [c]) @ chunks)"
    using Cons.prems by simp
  ultimately show ?case
    using Cons.IH [of "acc @ [c]"] ne by (simp add: case_prod_unfold)
qed

lemma hydrateRooms_serialized:
  "wf_world (acc @ W) \<Longrightarrow>
   hydrateRooms
     (map (\<lambda>r. (fst r,
        JObj (map (\<lambda>c. (fst c, JArr (map (\<lambda>p. blockValue (snd p)) (snd c)))) (snd r)))) W) acc
     = (acc @ W, None)"
proof (induction W arbitrary: acc)
  case Nil
  then show ?case by simp
next
  case (Cons r W)
  from Cons.prems have d: "distinct (map fst (acc @ r # W))"
    unfolding wf_world_def by blast
  have "r \<in> set (acc @ r # W)"
    by simp
  with Cons.prems have wc: "wf_chunkMap (snd r)" and ne: "snd r \<noteq> []"
    unfolding wf_world_def by blast+
  from d have fresh: "fst r \<notin> fst ` set acc"
    by auto
  have "hydrateChunks
      (map (\<lambda>c. (fst c, JArr (map (\<lambda>p. blockValue (snd p)) (snd c)))) (snd r)) [] = Inr (snd r)"
    using hydrateChunks_serialized [of "[]" "snd r"] wc by simp
  moreover have "AList.update (fst r) (snd r) acc = acc @ [r]"
    using fresh by (simp add: update_absent)
  moreover have "wf_world ((acc @ [r]) @ W)"
    using Cons.prems by simp
  ultimately show ?case
    using Cons.IH [of "acc @ [r]"] ne by (simp add: case_prod_unfold)
qed

lemma serializeWorldState_eq:
  assumes "wf_world W" and "noProtoKeys W"
  shows "serializeWorldState W =
     JObj [(''rooms'', JObj (map (\<lambda>r. (fst r,
        JObj (map (\<lambda>c. (fst c, JArr (map (\<lambda>p. blockValue (snd p)) (snd c)))) (snd r)))) W))]"
proof -
  have chunks: "serializeChunks (snd r) [] =
      map (\<lambda>c. (fst c, JArr (map (\<lambda>p. blockValue (snd p)) (snd c)))) (snd r)"
    if "r \<in> set W" for r
    using assms that serializeChunks_eq [of "snd r" "[]"]
    by (auto simp: wf_world_def wf_chunkMap_def noProtoKeys_def)
  have "serializeRooms W [] = map (\<lambda>r. (fst r, JObj (serializeChunks (snd r) []))) W"
    using assms serializeRooms_eq [of W "[]"] by (auto simp: wf_world_def noProtoKeys_def)
  also have "\<dots> = map (\<lambda>r. (fst r,
        JObj (map (\<lambda>c. (fst c, JArr (map (\<lambda>p. blockValue (snd p)) (snd c)))) (snd r)))) W"
    using chunks by simp
  finally show ?thesis
    by (simp add: serializeWorldState_def)
qed

lemma hydrate_serialize_roundtrip:
  assumes "wf_world W" and "noProtoKeys W"
  shows "hydrateWorldState W0 (serializeWorldState W) = (W, None)"
  using hydrateRooms_serialized [of "[]" W] assms
  by (simp add: serializeWorldState_eq hydrateWorldState_def)

text \<open>
  The stores the dispatcher builds have no such key: a chunk key holds a comma, and a room
  key comes out of \<^verbatim>\<open>normalizeRoom\<close>, which leaves no lower-case letter.
\<close>

lemma noProtoKeys_Nil: "noProtoKeys []"
  by (simp add: noProtoKeys_def)

lemma noProtoKeys_setRoomBlock:
  assumes "noProtoKeys W" and "room \<noteq> ''__proto__''"
  shows "noProtoKeys (setRoomBlock W room x y z i)"
proof -
  define chunks where "chunks = (case map_of W room of Some c \<Rightarrow> c | None \<Rightarrow> [])"
  define cMap where
    "cMap = (case map_of chunks (blockChunkKey x z) of Some m \<Rightarrow> m | None \<Rightarrow> [])"
  have nc: "\<forall>c \<in> set chunks. fst c \<noteq> ''__proto__''"
  proof (cases "map_of W room")
    case None
    then show ?thesis by (simp add: chunks_def)
  next
    case (Some c0)
    then have "(room, c0) \<in> set W"
      by (rule map_of_SomeD)
    with assms(1) Some show ?thesis
      unfolding noProtoKeys_def chunks_def by fastforce
  qed
  have upd: "noProtoKeys (AList.update room c W)" if "\<forall>d \<in> set c. fst d \<noteq> ''__proto__''" for c
    using assms that unfolding noProtoKeys_def by (auto dest!: set_update_cases)
  have del: "noProtoKeys (AList.delete room W)"
    using assms(1) unfolding noProtoKeys_def by (auto dest!: set_delete_subset)
  have cu: "\<forall>d \<in> set (AList.update (blockChunkKey x z) m chunks). fst d \<noteq> ''__proto__''" for m
    using nc blockChunkKey_not_proto by (auto dest!: set_update_cases)
  have cd: "\<forall>d \<in> set (AList.delete (blockChunkKey x z) chunks). fst d \<noteq> ''__proto__''"
    using nc by (auto dest!: set_delete_subset)
  show ?thesis
    using upd [OF cu] upd [OF cd] del
    by (simp add: setRoomBlock_alt Let_def chunks_def cMap_def)
qed

lemma noProtoKeys_applyCalls:
  "noProtoKeys W \<Longrightarrow> \<forall>c \<in> set cs. fst c \<noteq> ''__proto__'' \<Longrightarrow> noProtoKeys (applyCalls W cs)"
  by (induction cs rule: rev_induct)
    (auto simp: applyCalls_def applyCall_def noProtoKeys_setRoomBlock split: prod.splits)

lemma roundtrip_of_built_world:
  assumes "\<forall>c \<in> set cs. fst c \<noteq> ''__proto__''"
  shows "hydrateWorldState W0 (serializeWorldState (applyCalls [] cs)) = (applyCalls [] cs, None)"
  using assms
  by (simp add: hydrate_serialize_roundtrip wf_world_applyCalls wf_world_Nil
      noProtoKeys_applyCalls noProtoKeys_Nil)

lemma toUpperChar_not_p: "toUpperChar c \<noteq> CHR ''p''"
  by (simp add: toUpperChar_def)

lemma normalizeRoom_not_proto: "normalizeRoom v = Inr room \<Longrightarrow> room \<noteq> ''__proto__''"
proof
  assume n: "normalizeRoom v = Inr room" and p: "room = ''__proto__''"
  from n obtain s where
    r: "room = (if take 32 (toUpperCase (trim s)) \<noteq> [] then take 32 (toUpperCase (trim s))
                else ''GLOBAL'')"
    by (cases "js_String (if truthy v then v else JStr ''GLOBAL'')")
      (auto simp: normalizeRoom_def bindE_def Let_def)
  have "CHR ''p'' \<notin> set (toUpperCase (trim s))"
    unfolding toUpperCase_def set_map using toUpperChar_not_p by (metis imageE)
  then have "CHR ''p'' \<notin> set (take 32 (toUpperCase (trim s)))"
    using set_take_subset [of 32 "toUpperCase (trim s)"] by blast
  with r have "CHR ''p'' \<notin> set room"
    by (simp split: if_splits)
  with p show False
    by simp
qed

subsection \<open>A room named \<^verbatim>\<open>__proto__\<close> is lost\<close>

lemma blockKey_1_2_3: "blockKey 1 2 3 = ''1,2,3''"
  by (simp add: blockKey_def intToString_def digits.simps digit_def)

lemma hydrate_protoRoomDocument:
  "hydrateWorldState W protoRoomDocument =
     ([(''__proto__'', [(''0,0'', [(''1,2,3'',
         \<lparr>block_x = 1, block_y = 2, block_z = 3, block_id = 5\<rparr>)])])], None)"
  by (simp add: protoRoomDocument_def hydrateWorldState_def readBlock_def bindE_def
      blockKey_1_2_3)


text \<open>
  Claim C2.  For every reachable world, hydrating the document that \<^verbatim>\<open>serialize\<close> produces
  gives an equivalent room, chunk and block mapping, and serialising that again gives the
  same blocks.  The code breaks this for a world that holds the room key \<^verbatim>\<open>__proto__\<close>,
  which \<^verbatim>\<open>hydrateWorldState\<close> accepts from a world file: the world after hydrating
  \<open>protoRoomDocument\<close> holds one block, its document holds no room, and hydrating that
  document gives the empty world.
\<close>

theorem serialize_drops_proto_room:
  "runOps [] [Hydrate protoRoomDocument] =
     [(''__proto__'', [(''0,0'', [(''1,2,3'',
         \<lparr>block_x = 1, block_y = 2, block_z = 3, block_id = 5\<rparr>)])])]
   \<and> serializeWorldState (runOps [] [Hydrate protoRoomDocument]) = JObj [(''rooms'', JObj [])]
   \<and> hydrateWorldState (runOps [] [Hydrate protoRoomDocument])
        (serializeWorldState (runOps [] [Hydrate protoRoomDocument])) = ([], None)"
proof -
  let ?W = "[(''__proto__'', [(''0,0'', [(''1,2,3'',
         \<lparr>block_x = 1, block_y = 2, block_z = 3, block_id = 5\<rparr>)])])]"
  have run: "runOps [] [Hydrate protoRoomDocument] = ?W"
    by (simp add: runOps_def hydrate_protoRoomDocument)
  have ser: "serializeWorldState ?W = JObj [(''rooms'', JObj [])]"
    by (simp add: serializeWorldState_def js_assign_def)
  have "hydrateWorldState ?W (JObj [(''rooms'', JObj [])]) = ([], None)"
    by (simp add: hydrateWorldState_def)
  with run ser show ?thesis
    by simp
qed

theorem serialize_drops_proto_room_witness:
  "serializeWorldState (runOps [] [Hydrate protoRoomDocument]) = JObj [(''rooms'', JObj [])]
   \<and> fst (hydrateWorldState (runOps [] [Hydrate protoRoomDocument])
        (serializeWorldState (runOps [] [Hydrate protoRoomDocument]))) = []"
  using serialize_drops_proto_room by (metis fst_conv)

section \<open>Invariants of the store\<close>

lemma positive_ids_wf:
  assumes "wf_world W"
  shows "\<forall>e \<in> set (allBlocks W). 0 < block_id (snd e)"
proof
  fix e assume "e \<in> set (allBlocks W)"
  then have "(fst e, snd e) \<in> set (allBlocks W)"
    by simp
  then obtain chunks cKey cMap bKey where
    "(fst e, chunks) \<in> set W" "(cKey, cMap) \<in> set chunks" "(bKey, snd e) \<in> set cMap"
    unfolding set_allBlocks by blast
  with assms show "0 < block_id (snd e)"
    unfolding wf_world_def wf_chunkMap_def wf_blockMap_def by fastforce
qed










section \<open>Reading a chunk\<close>

lemma getChunkBlocks_memD:
  assumes "b \<in> set (getChunkBlocks W room cx cz)"
  shows "\<exists>chunks cMap bKey. map_of W room = Some chunks
     \<and> map_of chunks (intToString cx @ '','' @ intToString cz) = Some cMap
     \<and> (bKey, b) \<in> set cMap"
proof (cases "map_of W room")
  case None
  with assms show ?thesis
    by (simp add: getChunkBlocks_def)
next
  case (Some chunks)
  show ?thesis
  proof (cases "map_of chunks (intToString cx @ '','' @ intToString cz)")
    case None
    with Some assms show ?thesis
      by (simp add: getChunkBlocks_def)
  next
    case inner: (Some cMap)
    with Some assms have "b \<in> snd ` set cMap"
      by (simp add: getChunkBlocks_def)
    with Some inner show ?thesis
      by force
  qed
qed

lemma getChunkBlocks_placed:
  assumes "wf_world W" and "placed_world W"
  shows "set (getChunkBlocks W room cx cz) =
     {b. (room, b) \<in> set (allBlocks W)
         \<and> block_x b div CHUNK_SIZE = cx \<and> block_z b div CHUNK_SIZE = cz}"
proof (intro set_eqI iffI)
  fix b
  assume "b \<in> set (getChunkBlocks W room cx cz)"
  then obtain chunks cMap bKey where
    1: "map_of W room = Some chunks"
    and 2: "map_of chunks (intToString cx @ '','' @ intToString cz) = Some cMap"
    and 3: "(bKey, b) \<in> set cMap"
    using getChunkBlocks_memD by blast
  from 1 2 have r: "(room, chunks) \<in> set W"
    and c: "(intToString cx @ '','' @ intToString cz, cMap) \<in> set chunks"
    by (auto dest: map_of_SomeD)
  with 3 have mem: "(room, b) \<in> set (allBlocks W)"
    unfolding set_allBlocks by blast
  from assms(2) r c 3
  have "intToString cx @ '','' @ intToString cz = blockChunkKey (block_x b) (block_z b)"
    unfolding placed_world_def placed_chunkMap_def by fastforce
  with mem show "b \<in> {b. (room, b) \<in> set (allBlocks W)
         \<and> block_x b div CHUNK_SIZE = cx \<and> block_z b div CHUNK_SIZE = cz}"
    using chunkKey_inj [of cx cz "block_x b" "block_z b"] by auto
next
  fix b
  assume "b \<in> {b. (room, b) \<in> set (allBlocks W)
         \<and> block_x b div CHUNK_SIZE = cx \<and> block_z b div CHUNK_SIZE = cz}"
  then have mem: "(room, b) \<in> set (allBlocks W)"
    and k: "intToString cx @ '','' @ intToString cz = blockChunkKey (block_x b) (block_z b)"
    using chunkKey_inj [of cx cz "block_x b" "block_z b"] by auto
  from mem obtain chunks cKey cMap bKey where
    r: "(room, chunks) \<in> set W" and c: "(cKey, cMap) \<in> set chunks" and e: "(bKey, b) \<in> set cMap"
    unfolding set_allBlocks by blast
  from assms(2) r c e have "cKey = blockChunkKey (block_x b) (block_z b)"
    unfolding placed_world_def placed_chunkMap_def by fastforce
  with k have ck: "cKey = intToString cx @ '','' @ intToString cz"
    by simp
  from assms(1) r have 1: "map_of W room = Some chunks" and "wf_chunkMap chunks"
    unfolding wf_world_def by auto
  with c have 2: "map_of chunks cKey = Some cMap"
    unfolding wf_chunkMap_def by auto
  from 1 2 ck e show "b \<in> set (getChunkBlocks W room cx cz)"
    by (force simp: getChunkBlocks_def)
qed

lemma getChunkBlocks_subset_allBlocks:
  "b \<in> set (getChunkBlocks W room cx cz) \<Longrightarrow> (room, b) \<in> set (allBlocks W)"
  unfolding set_allBlocks
  by (blast dest: getChunkBlocks_memD map_of_SomeD)

text \<open>
  Claim C7.  For every room key and chunk coordinate pair, \<^verbatim>\<open>getChunkBlocks\<close> returns the
  empty list when the room or the chunk is absent and the blocks of the chunk's map
  when it is present; it is a total function, so it never fails.  In every store reached
  by \<^verbatim>\<open>setBlock\<close> and \<^verbatim>\<open>hydrate\<close> operations the blocks returned are live (their id is
  positive), and in a store built by \<^verbatim>\<open>setBlock\<close> calls they are exactly the stored blocks
  of the room whose coordinates fall in the chunk.
\<close>

theorem getChunkBlocks_total:
  "(map_of W room = None \<longrightarrow> getChunkBlocks W room cx cz = [])
   \<and> (\<forall>chunks. map_of W room = Some chunks
         \<longrightarrow> map_of chunks (intToString cx @ '','' @ intToString cz) = None
         \<longrightarrow> getChunkBlocks W room cx cz = [])
   \<and> (\<forall>chunks cMap. map_of W room = Some chunks
         \<longrightarrow> map_of chunks (intToString cx @ '','' @ intToString cz) = Some cMap
         \<longrightarrow> getChunkBlocks W room cx cz = map snd cMap)
   \<and> (\<forall>b \<in> set (getChunkBlocks (runOps [] ops) room cx cz). 0 < block_id b)
   \<and> set (getChunkBlocks (applyCalls [] cs) room cx cz) =
       {b. (room, b) \<in> set (allBlocks (applyCalls [] cs))
           \<and> block_x b div CHUNK_SIZE = cx \<and> block_z b div CHUNK_SIZE = cz}"
proof (intro conjI)
  have wf: "wf_world (runOps [] ops)"
    by (simp add: wf_world_runOps wf_world_Nil)
  show "\<forall>b \<in> set (getChunkBlocks (runOps [] ops) room cx cz). 0 < block_id b"
    using positive_ids_wf [OF wf] getChunkBlocks_subset_allBlocks by fastforce
  show "set (getChunkBlocks (applyCalls [] cs) room cx cz) =
       {b. (room, b) \<in> set (allBlocks (applyCalls [] cs))
           \<and> block_x b div CHUNK_SIZE = cx \<and> block_z b div CHUNK_SIZE = cz}"
    by (rule getChunkBlocks_placed)
      (simp_all add: wf_world_applyCalls wf_world_Nil placed_world_applyCalls placed_world_Nil)
qed (simp_all add: getChunkBlocks_def)

theorem getChunkBlocks_total_witness:
  "getChunkBlocks [] ''NOWHERE'' 0 0 = []
   \<and> getChunkBlocks
        [(''ABC'', [(''1,0'', [(''20,0,0'',
            \<lparr>block_x = 20, block_y = 0, block_z = 0, block_id = 2\<rparr>)])])] ''ABC'' 0 0 = []
   \<and> getChunkBlocks
        [(''ABC'', [(''1,0'', [(''20,0,0'',
            \<lparr>block_x = 20, block_y = 0, block_z = 0, block_id = 2\<rparr>)])])] ''ABC'' 1 0 =
        [\<lparr>block_x = 20, block_y = 0, block_z = 0, block_id = 2\<rparr>]"
proof -
  let ?W = "[(''ABC'', [(''1,0'', [(''20,0,0'',
            \<lparr>block_x = 20, block_y = 0, block_z = 0, block_id = 2\<rparr>)])])]"
  have k00: "intToString 0 @ CHR '','' # intToString 0 = ''0,0''"
    and k10: "intToString 1 @ CHR '','' # intToString 0 = ''1,0''"
    by (simp_all add: intToString_def digits.simps digit_def)
  have "getChunkBlocks [] ''NOWHERE'' 0 0 = []"
    using getChunkBlocks_total [of "[]" "''NOWHERE''" 0 0] by simp
  moreover have "getChunkBlocks ?W ''ABC'' 0 0 = []"
    using getChunkBlocks_total [of ?W "''ABC''" 0 0] by (simp add: k00)
  moreover have "getChunkBlocks ?W ''ABC'' 1 0 =
      [\<lparr>block_x = 20, block_y = 0, block_z = 0, block_id = 2\<rparr>]"
    using getChunkBlocks_total [of ?W "''ABC''" 1 0] by (simp add: k10)
  ultimately show ?thesis
    by simp
qed

section \<open>Hydration clears the world first\<close>

lemma isObject_iff: "isObject v \<longleftrightarrow> truthy v \<and> typeofObject v"
  by (cases v) simp_all

text \<open>
  Claim C10.  \<^verbatim>\<open>hydrateWorldState\<close> clears the world before it looks at its argument: its
  result never depends on the world it found, and for every argument that is not an
  object with an object-valued \<^verbatim>\<open>rooms\<close> field the resulting world is empty.
\<close>

theorem hydrate_clears_first:
  "hydrateWorldState W raw = hydrateWorldState [] raw
   \<and> (\<not> hasObjectRooms raw \<longrightarrow> hydrateWorldState W raw = ([], None))"
  by (auto simp: hasObjectRooms_def isObject_iff hydrateWorldState_def Let_def)

theorem hydrate_clears_first_witness:
  "\<not> hasObjectRooms (JObj [(''rooms'', JStr ''none'')])
   \<and> hydrateWorldState
        [(''R'', [(''0,0'', [(''1,2,3'', \<lparr>block_x = 1, block_y = 2, block_z = 3, block_id = 5\<rparr>)])])]
        (JObj [(''rooms'', JStr ''none'')]) = ([], None)"
  using hydrate_clears_first [of
      "[(''R'', [(''0,0'', [(''1,2,3'', \<lparr>block_x = 1, block_y = 2, block_z = 3, block_id = 5\<rparr>)])])]"
      "JObj [(''rooms'', JStr ''none'')]", THEN conjunct2]
  by (simp add: hasObjectRooms_def)

section \<open>Room keys\<close>

lemma GLOBAL_normal: "take 32 (toUpperCase (trim ''GLOBAL'')) = ''GLOBAL''"
  by (simp add: trim_def isWhiteSpace_def toUpperCase_def toUpperChar_def)

text \<open>
  Claim C8, as amended.  For a string, \<^verbatim>\<open>normalizeRoom\<close> returns it trimmed, upper-cased
  and cut to 32 characters, or \<^verbatim>\<open>GLOBAL\<close> when nothing is left.  For an absent or
  otherwise falsy value (\<^verbatim>\<open>undefined\<close>, \<^verbatim>\<open>null\<close>, \<^verbatim>\<open>false\<close>, \<^verbatim>\<open>0\<close>, \<^verbatim>\<open>NaN\<close>, the empty
  string) it returns \<^verbatim>\<open>GLOBAL\<close>.  A truthy value that is not a string is not replaced by
  \<^verbatim>\<open>GLOBAL\<close>: whenever \<^verbatim>\<open>String\<close> converts it, its string is normalised the same way.
\<close>

theorem normalizeRoom_cases:
  "normalizeRoom (JStr s) =
     Inr (if take 32 (toUpperCase (trim s)) = [] then ''GLOBAL''
          else take 32 (toUpperCase (trim s)))
   \<and> (\<not> truthy v \<longrightarrow> normalizeRoom v = Inr ''GLOBAL'')
   \<and> (truthy v \<longrightarrow> js_String v = Inr t \<longrightarrow>
        normalizeRoom v =
          Inr (if take 32 (toUpperCase (trim t)) = [] then ''GLOBAL''
               else take 32 (toUpperCase (trim t))))"
proof (intro conjI impI)
  show "normalizeRoom (JStr s) =
     Inr (if take 32 (toUpperCase (trim s)) = [] then ''GLOBAL''
          else take 32 (toUpperCase (trim s)))"
  proof (cases "s = []")
    case True
    then show ?thesis
      by (simp add: normalizeRoom_def bindE_def GLOBAL_normal Let_def)
        (simp add: trim_def toUpperCase_def)
  next
    case False
    then show ?thesis
      by (simp add: normalizeRoom_def bindE_def Let_def)
  qed
next
  assume "\<not> truthy v"
  then show "normalizeRoom v = Inr ''GLOBAL''"
    by (simp add: normalizeRoom_def bindE_def GLOBAL_normal Let_def)
next
  assume "truthy v" and "js_String v = Inr t"
  then show "normalizeRoom v =
          Inr (if take 32 (toUpperCase (trim t)) = [] then ''GLOBAL''
               else take 32 (toUpperCase (trim t)))"
    by (simp add: normalizeRoom_def bindE_def Let_def)
qed

theorem normalizeRoom_cases_witness:
  "normalizeRoom (JStr ''abc '') = Inr ''ABC''
   \<and> normalizeRoom JUndefined = Inr ''GLOBAL''
   \<and> normalizeRoom (JNum (Fin 5)) = Inr ''5''"
proof -
  have "normalizeRoom (JStr ''abc '') = Inr ''ABC''"
    using normalizeRoom_cases [of "''abc ''", THEN conjunct1]
    by (simp add: trim_def isWhiteSpace_def toUpperCase_def toUpperChar_def)
  moreover have "normalizeRoom JUndefined = Inr ''GLOBAL''"
    using normalizeRoom_cases [of _ JUndefined, THEN conjunct2, THEN conjunct1] by simp
  moreover have "normalizeRoom (JNum (Fin 5)) = Inr ''5''"
    using normalizeRoom_cases [of _ "JNum (Fin 5)" "''5''", THEN conjunct2, THEN conjunct2]
    by (simp add: intToString_def digits.simps digit_def trim_def isWhiteSpace_def
        toUpperCase_def toUpperChar_def)
  ultimately show ?thesis
    by simp
qed

text \<open>
  The claim as stated has \<^verbatim>\<open>GLOBAL\<close> for every value that is not a string; \<^verbatim>\<open>true\<close> gives
  \<^verbatim>\<open>TRUE\<close>.
\<close>

theorem normalizeRoom_nonstring_counterexample:
  "normalizeRoom (JBool True) = Inr ''TRUE'' \<and> normalizeRoom (JBool True) \<noteq> Inr ''GLOBAL''"
  by (simp add: normalizeRoom_def bindE_def trim_def isWhiteSpace_def toUpperCase_def
      toUpperChar_def Let_def)

section \<open>Membership\<close>









subsection \<open>Membership and the peers' rooms agree in every state\<close>





















section \<open>Validation of \<^verbatim>\<open>PLAYER_STATE\<close>\<close>









section \<open>The fallback of \<^verbatim>\<open>heldBlock\<close>\<close>









section \<open>Who receives a broadcast\<close>




















end
